theory Spec2Isabelle
  imports Complex_Main "HOL-Library.Word" "HOL-Library.Sublist"
begin

section \<open>Strings of the script\<close>

text \<open>
  The theory follows \<^verbatim>\<open>src/script.js\<close>: the markup it builds, its filter, the state of
  the page it keeps (markers, layer group, sidebar, map view, locate control) and the
  handlers that change it. The year display, the category options, the bounce animation
  and the keyboard shortcut touch none of that state and are left out.

  A JavaScript string is a sequence of 16-bit code units. ASCII literals of the script are
  written with \<open>str\<close>; the line breaks inside its template literals are \<open>nl\<close>.
\<close>

type_synonym jsstring = "16 word list"

definition str :: "string \<Rightarrow> jsstring" where
  "str s = map of_char s"

definition nl :: jsstring where
  "nl = [0x0A]"

text \<open>
  \<open>String.prototype.includes\<close>: the search string occurs at some position of the
  receiver. The search walks the start positions from the left.
\<close>

fun includes_str :: "jsstring \<Rightarrow> jsstring \<Rightarrow> bool" where
  "includes_str [] q = (q = [])"
| "includes_str (c # cs) q = (prefix q (c # cs) \<or> includes_str cs q)"

text \<open>
  \<open>String.prototype.trim\<close> removes the white space and line terminators of ECMAScript
  from both ends.
\<close>

definition isWhiteSpace :: "16 word \<Rightarrow> bool" where
  "isWhiteSpace c =
     (c \<in> set [0x09, 0x0A, 0x0B, 0x0C, 0x0D, 0x20, 0xA0, 0x1680, 0x2028, 0x2029,
                0x202F, 0x205F, 0x3000, 0xFEFF]
      \<or> (0x2000 \<le> c \<and> c \<le> 0x200A))"

definition trim :: "jsstring \<Rightarrow> jsstring" where
  "trim s = rev (dropWhile isWhiteSpace (rev (dropWhile isWhiteSpace s)))"

text \<open>
  \<open>escapeHtml\<close> (line 38): every \<open>&\<close>, \<open><\<close>, \<open>>\<close>, double quote and single quote
  is replaced by its entity, every other code unit is kept.
\<close>

definition escapeUnit :: "16 word \<Rightarrow> jsstring" where
  \<open>escapeUnit c =
     (if c = of_char (CHR ''&'') then str ''&amp;''
      else if c = of_char (CHR ''<'') then str ''&lt;''
      else if c = of_char (CHR ''>'') then str ''&gt;''
      else if c = of_char (CHR ''"'') then str ''&quot;''
      else if c = of_char (CHR 0x27) then str ''&#39;''
      else [c])\<close>

definition escapeHtml :: "jsstring \<Rightarrow> jsstring" where
  "escapeHtml s = concat (map escapeUnit s)"

section \<open>Records, markers and markup\<close>

text \<open>
  A location record as the data file gives it: three text fields, two numbers and an
  optional image URL (\<open>None\<close> when the field is absent).
\<close>

record location =
  name :: jsstring
  category :: jsstring
  description :: jsstring
  lat :: real
  lng :: real
  image :: "jsstring option"

text \<open>
  The optional field in a boolean position (\<open>loc.image ? ... : ''\<close>) and inside a template
  literal (\<open>${loc.image}\<close>): an absent field is falsy and prints as \<open>undefined\<close>, the
  empty string is falsy too.
\<close>

definition truthy :: "jsstring option \<Rightarrow> bool" where
  "truthy v = (case v of None \<Rightarrow> False | Some s \<Rightarrow> s \<noteq> [])"

definition toTemplate :: "jsstring option \<Rightarrow> jsstring" where
  "toTemplate v = (case v of None \<Rightarrow> str ''undefined'' | Some s \<Rightarrow> s)"

text \<open>
  \<open>createPopupHTML\<close> (lines 25-35). The numbers are printed by the engine's
  number-to-string conversion, which the function takes as \<open>numToString\<close>.
\<close>

definition createPopupHTML :: "(real \<Rightarrow> jsstring) \<Rightarrow> location \<Rightarrow> jsstring" where
  \<open>createPopupHTML numToString l =
     nl @ str ''      <div class="popup">'' @
     nl @ str ''        <h3>'' @ escapeHtml (name l) @ str ''</h3>'' @
     nl @ str ''        <small>'' @ escapeHtml (category l) @ str ''</small>'' @
     nl @ str ''        <p>'' @ escapeHtml (description l) @ str ''</p>'' @
     nl @ str ''        '' @
       (if truthy (image l)
        then str ''<img src="'' @ toTemplate (image l) @ str ''" alt="'' @
             escapeHtml (name l) @ str ''">''
        else []) @
     nl @ str ''        <p><a href="https://www.google.com/maps/search/?api=1&query='' @
       numToString (lat l) @ str '','' @ numToString (lng l) @
       str ''" target="_blank" rel="noopener">Open in Google Maps</a></p>'' @
     nl @ str ''      </div>'' @
     nl @ str ''    ''\<close>

text \<open>The markup assigned to \<open>li.innerHTML\<close> in \<open>renderList\<close> (lines 79-85).\<close>

definition listItemHTML :: "location \<Rightarrow> jsstring" where
  \<open>listItemHTML l =
     nl @ str ''        <img class="location-thumb" src="'' @ toTemplate (image l) @
       str ''" alt="'' @ escapeHtml (name l) @ str ''" />'' @
     nl @ str ''        <div>'' @
     nl @ str ''          <div class="location-title">'' @ escapeHtml (name l) @ str ''</div>'' @
     nl @ str ''          <div class="location-cat">'' @ escapeHtml (category l) @ str ''</div>'' @
     nl @ str ''        </div>'' @
     nl @ str ''      ''\<close>

text \<open>
  A map marker (\<open>L.marker\<close>, lines 43-44): its identity is the number the map library
  stamps on it, handed out in increasing order; it carries its coordinate, its title and
  the popup markup bound to it.
\<close>

record leaflet_marker =
  markerId :: nat
  latlng :: "real \<times> real"
  title :: jsstring
  popup :: jsstring

text \<open>An element \<open>{loc, marker}\<close> of the \<open>markers\<close> array (line 54).\<close>

record marker_entry =
  loc :: location
  marker :: leaflet_marker

text \<open>
  A sidebar entry: class name, assigned markup, and the marker its click handler closes
  over (lines 77-89).
\<close>

record list_item =
  className :: jsstring
  innerHTML :: jsstring
  itemMarker :: leaflet_marker

text \<open>The temporary circle marker of the locate control (line 133).\<close>

record circle_marker =
  circleId :: nat
  circleLatLng :: "real \<times> real"

text \<open>
  The map view is what the last view call asked for: \<open>setView(center, zoom)\<close> with its
  \<open>animate\<close> option, or \<open>fitBounds\<close> of the padded bounds of a feature group, kept as
  the coordinates of the group's members and the padding ratio (the bounds arithmetic is
  the map library's).
\<close>

datatype view =
  SetView "real \<times> real" nat bool
| FitBounds "(real \<times> real) list" real

section \<open>The page state\<close>

record page =
  markers :: "marker_entry list"
  markerGroup :: "leaflet_marker list"
  overlay :: "circle_marker list"
  mapView :: view
  openPopup :: "nat option"
  locationList :: "list_item list"
  searchInput :: jsstring
  categoryFilter :: jsstring
  locateDisabled :: bool
  locateText :: jsstring
  alerts :: "jsstring list"
  geolocation :: bool
  pending :: nat
  timers :: "(nat \<times> nat) list"
  clock :: nat
  lastId :: nat

text \<open>
  \<open>markerGroup\<close> is the layer group of line 21, \<open>overlay\<close> the circle markers added to
  the map itself, \<open>alerts\<close> the messages of the blocking notifications shown so far,
  \<open>geolocation\<close> whether \<open>navigator.geolocation\<close> exists, \<open>pending\<close> the position
  requests not yet answered. A timer is the time in milliseconds at which it is due and
  the id of the circle marker its callback (line 134) removes; \<open>clock\<close> is the current
  time in milliseconds and \<open>lastId\<close> the next stamp of the map library.
\<close>

text \<open>
  The label of lines 134 and 138: the pin sign U+1F4CD as its two code units, a space and
  \<open>My location\<close>.
\<close>

definition idleLabel :: jsstring where
  "idleLabel = [0xD83D, 0xDCCD] @ str '' My location''"

text \<open>
  A layer group holds its layers under their ids and enumerates them by ascending id, so
  adding a layer it already holds changes nothing.
\<close>

definition addLayer :: "leaflet_marker \<Rightarrow> leaflet_marker list \<Rightarrow> leaflet_marker list" where
  "addLayer m g = (if markerId m \<in> set (map markerId g) then g else insort_key markerId m g)"

text \<open>The viewport fit of lines 58-61 and 111-114.\<close>

definition fitViewport :: "leaflet_marker list \<Rightarrow> page \<Rightarrow> page" where
  "fitViewport ms s =
     (if length ms \<noteq> 0 then s\<lparr>mapView := FitBounds (map latlng ms) (12 / 100)\<rparr> else s)"

text \<open>\<open>renderList\<close> (lines 74-92): the list is emptied, then one entry is appended per item.\<close>

definition listItem :: "marker_entry \<Rightarrow> list_item" where
  "listItem e =
     \<lparr>className = str ''location-item'', innerHTML = listItemHTML (loc e),
      itemMarker = marker e\<rparr>"

definition appendItem :: "marker_entry \<Rightarrow> page \<Rightarrow> page" where
  "appendItem e s = s\<lparr>locationList := locationList s @ [listItem e]\<rparr>"

definition renderList :: "marker_entry list \<Rightarrow> page \<Rightarrow> page" where
  "renderList items s = fold appendItem items (s\<lparr>locationList := []\<rparr>)"

text \<open>The click handler of a sidebar entry (lines 86-89).\<close>

definition listItemClick :: "list_item \<Rightarrow> page \<Rightarrow> page" where
  "listItemClick li s =
     s\<lparr>openPopup := Some (markerId (itemMarker li)),
       mapView := SetView (latlng (itemMarker li)) 15 True\<rparr>"

section \<open>Search and filter\<close>

text \<open>
  The engine's \<open>String.prototype.toLowerCase\<close> is not part of the script: the filter
  takes it as \<open>toLowerCase\<close>, as the popup takes the printing of numbers.
\<close>

definition matchesQ :: "(jsstring \<Rightarrow> jsstring) \<Rightarrow> jsstring \<Rightarrow> location \<Rightarrow> bool" where
  "matchesQ toLowerCase q l =
     (q = [] \<or>
      includes_str (toLowerCase (name l @ str '' '' @ category l @ str '' '' @ description l)) q)"

definition matchesCat :: "jsstring \<Rightarrow> location \<Rightarrow> bool" where
  "matchesCat cat l = (cat = [] \<or> category l = cat)"

text \<open>
  The filtered array of \<open>applyFilters\<close> (lines 98-104), as a function of the two input
  values and the \<open>markers\<close> array.
\<close>

definition filtered ::
  "(jsstring \<Rightarrow> jsstring) \<Rightarrow> jsstring \<Rightarrow> jsstring \<Rightarrow> marker_entry list \<Rightarrow> marker_entry list" where
  "filtered toLowerCase query cat ms =
     (let q = toLowerCase (trim query)
      in filter (\<lambda>e. matchesQ toLowerCase q (loc e) \<and> matchesCat cat (loc e)) ms)"

text \<open>
  \<open>applyFilters\<close> (lines 97-115). \<open>clearLayers\<close> takes every marker off the map, which
  closes the popup of a marker that had it open.
\<close>

definition applyFilters :: "(jsstring \<Rightarrow> jsstring) \<Rightarrow> page \<Rightarrow> page" where
  "applyFilters toLowerCase s =
     (let f = filtered toLowerCase (searchInput s) (categoryFilter s) (markers s);
          s1 = s\<lparr>markerGroup := [], openPopup := None\<rparr>;
          s2 = s1\<lparr>markerGroup := fold addLayer (map marker f) (markerGroup s1)\<rparr>;
          s3 = renderList f s2
      in fitViewport (map marker f) s3)"

section \<open>Page load\<close>

text \<open>The body of the loop of lines 41-55 for one record.\<close>

definition addMarker :: "(real \<Rightarrow> jsstring) \<Rightarrow> location \<Rightarrow> page \<Rightarrow> page" where
  "addMarker numToString l s =
     (let m = \<lparr>markerId = lastId s, latlng = (lat l, lng l), title = name l,
               popup = createPopupHTML numToString l\<rparr>
      in s\<lparr>lastId := lastId s + 1,
           markerGroup := addLayer m (markerGroup s),
           markers := markers s @ [\<lparr>loc = l, marker = m\<rparr>]\<rparr>)"

text \<open>
  Modelled from the spec: the page's document is not among the sources, so the controls
  start as the specification describes them, the search box empty, no category selected
  and the locate control idle (enabled, with the label the script restores).
  The rest is the load handler run on the parsed records (lines 8-93).
\<close>

definition init :: "(real \<Rightarrow> jsstring) \<Rightarrow> bool \<Rightarrow> location list \<Rightarrow> page" where
  "init numToString geo locations =
     (let s0 = \<lparr>markers = [], markerGroup = [], overlay = [],
                mapView = SetView (40.7831, - 73.9712) 12 False, openPopup = None,
                locationList = [], searchInput = [], categoryFilter = [],
                locateDisabled = False, locateText = idleLabel, alerts = [],
                geolocation = geo, pending = 0, timers = [], clock = 0, lastId = 0\<rparr>;
          s1 = fold (addMarker numToString) locations s0;
          s2 = fitViewport (map marker (markers s1)) s1
      in renderList (markers s2) s2)"

section \<open>The locate control\<close>

text \<open>The click handler of lines 122-140, up to the position request.\<close>

definition locateClick :: "page \<Rightarrow> page" where
  "locateClick s =
     (if \<not> geolocation s
      then s\<lparr>alerts := alerts s @ [str ''Geolocation not supported by this browser.'']\<rparr>
      else s\<lparr>locateDisabled := True, locateText := str ''Locating...'',
             pending := pending s + 1\<rparr>)"

text \<open>The success callback (lines 129-134) with the coordinates of the position.\<close>

definition locateSuccess :: "real \<Rightarrow> real \<Rightarrow> page \<Rightarrow> page" where
  "locateSuccess latitude longitude s =
     s\<lparr>mapView := SetView (latitude, longitude) 14 True,
       overlay := overlay s @ [\<lparr>circleId = lastId s, circleLatLng = (latitude, longitude)\<rparr>],
       lastId := lastId s + 1,
       timers := timers s @ [(clock s + 6000, lastId s)]\<rparr>"

text \<open>The error callback (lines 135-139) with the message of the error.\<close>

definition locateError :: "jsstring \<Rightarrow> page \<Rightarrow> page" where
  "locateError message s =
     s\<lparr>alerts := alerts s @ [str ''Could not get location: '' @ message],
       locateDisabled := False,
       locateText := idleLabel\<rparr>"

text \<open>The timer callback of line 134 for the circle marker with the given id.\<close>

definition fireTimer :: "nat \<times> nat \<Rightarrow> page \<Rightarrow> page" where
  "fireTimer t s =
     s\<lparr>overlay := filter (\<lambda>c. circleId c \<noteq> snd t) (overlay s),
       locateDisabled := False,
       locateText := idleLabel\<rparr>"

text \<open>
  Time passes: the timers that are due by the new time run in the order of their due
  times (registration order among equals), the others stay.
\<close>

definition elapse :: "nat \<Rightarrow> page \<Rightarrow> page" where
  "elapse dt s =
     (let t = clock s + dt;
          due = filter (\<lambda>x. fst x \<le> t) (timers s);
          rest = filter (\<lambda>x. \<not> fst x \<le> t) (timers s)
      in fold fireTimer (sort_key fst due) (s\<lparr>timers := rest, clock := t\<rparr>))"

section \<open>Events\<close>

text \<open>
  What can happen to the page after load: the search box or the category selector
  changes to a value, a sidebar entry or the locate button is clicked, a position request
  is answered, time passes. A disabled button receives no click, and a position request
  is answered once.
\<close>

datatype event =
  Input jsstring
| Change jsstring
| ClickItem nat
| ClickLocate
| GeoSuccess real real
| GeoError jsstring
| Elapse nat

fun step :: "(jsstring \<Rightarrow> jsstring) \<Rightarrow> event \<Rightarrow> page \<Rightarrow> page" where
  "step toLowerCase (Input q) s = applyFilters toLowerCase (s\<lparr>searchInput := q\<rparr>)"
| "step toLowerCase (Change c) s = applyFilters toLowerCase (s\<lparr>categoryFilter := c\<rparr>)"
| "step toLowerCase (ClickItem i) s =
     (if i < length (locationList s) then listItemClick (locationList s ! i) s else s)"
| "step toLowerCase ClickLocate s = (if locateDisabled s then s else locateClick s)"
| "step toLowerCase (GeoSuccess la lo) s =
     (if pending s = 0 then s else locateSuccess la lo (s\<lparr>pending := pending s - 1\<rparr>))"
| "step toLowerCase (GeoError msg) s =
     (if pending s = 0 then s else locateError msg (s\<lparr>pending := pending s - 1\<rparr>))"
| "step toLowerCase (Elapse dt) s = elapse dt s"

definition run :: "(jsstring \<Rightarrow> jsstring) \<Rightarrow> event list \<Rightarrow> page \<Rightarrow> page" where
  "run toLowerCase es s = fold (step toLowerCase) es s"

section \<open>What the page shows\<close>

text \<open>
  The entries the load loop builds from the records, the first with the stamp \<open>k\<close>.
\<close>

fun loadedFrom :: "(real \<Rightarrow> jsstring) \<Rightarrow> nat \<Rightarrow> location list \<Rightarrow> marker_entry list" where
  "loadedFrom numToString k [] = []"
| "loadedFrom numToString k (l # ls) =
     \<lparr>loc = l,
      marker = \<lparr>markerId = k, latlng = (lat l, lng l), title = name l,
                popup = createPopupHTML numToString l\<rparr>\<rparr>
     # loadedFrom numToString (Suc k) ls"

text \<open>The markers of the entries carry strictly increasing stamps.\<close>

definition idsSorted :: "marker_entry list \<Rightarrow> bool" where
  "idsSorted ms = sorted_wrt (<) (map (\<lambda>e. markerId (marker e)) ms)"

text \<open>The filtered subset for the current values of the two inputs.\<close>

definition shown :: "(jsstring \<Rightarrow> jsstring) \<Rightarrow> page \<Rightarrow> marker_entry list" where
  "shown toLowerCase s = filtered toLowerCase (searchInput s) (categoryFilter s) (markers s)"

text \<open>The layer group and the sidebar are those of the filtered subset.\<close>

definition consistent :: "(jsstring \<Rightarrow> jsstring) \<Rightarrow> page \<Rightarrow> bool" where
  "consistent toLowerCase s =
     (idsSorted (markers s) \<and> markerGroup s = map marker (shown toLowerCase s)
      \<and> locationList s = map listItem (shown toLowerCase s))"

text \<open>
  The page displays the entries \<open>f\<close>: the layer group holds their markers in their order,
  the sidebar holds one entry for each, in their order, with that record's markup and
  that marker behind its click handler, and both have as many members as \<open>f\<close>.
\<close>

definition displays :: "page \<Rightarrow> marker_entry list \<Rightarrow> bool" where
  "displays s f =
     (markerGroup s = map marker f
      \<and> map itemMarker (locationList s) = map marker f
      \<and> map innerHTML (locationList s) = map (\<lambda>e. listItemHTML (loc e)) f
      \<and> length (locationList s) = length (markerGroup s)
      \<and> length (markerGroup s) = length f)"

section \<open>Time and the temporary marker\<close>

text \<open>The time that passes during a sequence of events.\<close>

fun elapsed :: "event list \<Rightarrow> nat" where
  "elapsed [] = 0"
| "elapsed (Elapse dt # es) = dt + elapsed es"
| "elapsed (e # es) = elapsed es"

text \<open>The events that run the success callback.\<close>

fun isGeoSuccess :: "event \<Rightarrow> bool" where
  "isGeoSuccess (GeoSuccess la lo) = True"
| "isGeoSuccess e = False"

text \<open>
  Stamps are fresh: every timer and every circle marker on the map carries a stamp that
  was handed out before.
\<close>

definition fresh :: "page \<Rightarrow> bool" where
  "fresh s = ((\<forall>t\<in>set (timers s). snd t < lastId s) \<and> (\<forall>c\<in>set (overlay s). circleId c < lastId s))"

text \<open>
  The circle marker \<open>mk\<close> whose removal is due at time \<open>d\<close>: before \<open>d\<close> it is on the
  map and its timer, the only one for its stamp, is pending; from \<open>d\<close> on no circle with
  its stamp is on the map.
\<close>

definition tracked :: "nat \<Rightarrow> circle_marker \<Rightarrow> page \<Rightarrow> bool" where
  "tracked d mk s =
     (circleId mk < lastId s \<and>
      (if clock s < d
       then mk \<in> set (overlay s) \<and> (d, circleId mk) \<in> set (timers s)
            \<and> (\<forall>t\<in>set (timers s). snd t = circleId mk \<longrightarrow> fst t = d)
       else \<forall>c\<in>set (overlay s). circleId c \<noteq> circleId mk))"

text \<open>
  Before \<open>d\<close> the timer is pending; from \<open>d\<close> on the locate control is enabled with its
  idle label.
\<close>

definition settled :: "nat \<Rightarrow> nat \<Rightarrow> page \<Rightarrow> bool" where
  "settled d i s =
     (if clock s < d then (d, i) \<in> set (timers s)
      else \<not> locateDisabled s \<and> locateText s = idleLabel)"

text \<open>A step that leaves the map overlay, the timers, the stamps and the clock alone.\<close>

definition quiet :: "page \<Rightarrow> page \<Rightarrow> bool" where
  "quiet s s' =
     (overlay s' = overlay s \<and> timers s' = timers s \<and> lastId s' = lastId s \<and> clock s' = clock s)"

section \<open>Markup characters\<close>

text \<open>
  \<open>adjacent a b xs\<close>: somewhere in \<open>xs\<close> an \<open>a\<close> is followed at once by a \<open>b\<close>.
  \<open>closedOff a b xs\<close>: that is not so, and \<open>xs\<close> does not end in \<open>a\<close> either, so that
  nothing appended to \<open>xs\<close> completes the pair.
\<close>

fun adjacent :: "'a \<Rightarrow> 'a \<Rightarrow> 'a list \<Rightarrow> bool" where
  "adjacent a b [] = False"
| "adjacent a b (x # xs) = ((x = a \<and> xs \<noteq> [] \<and> hd xs = b) \<or> adjacent a b xs)"

definition closedOff :: "'a \<Rightarrow> 'a \<Rightarrow> 'a list \<Rightarrow> bool" where
  "closedOff a b xs = (\<not> adjacent a b xs \<and> (xs = [] \<or> last xs \<noteq> a))"

definition ltSign :: "16 word" where
  "ltSign = of_char (CHR ''<'')"

section \<open>The matching rule in the words of the specification\<close>

text \<open>
  The rule as the specification words it: the lowercased query is a substring of the
  lowercased concatenation of name, category and description, or the query is empty; and
  the category selector is empty or equals the record's category.
\<close>

definition spec_passes ::
  "(jsstring \<Rightarrow> jsstring) \<Rightarrow> jsstring \<Rightarrow> jsstring \<Rightarrow> location \<Rightarrow> bool" where
  "spec_passes toLowerCase query cat l =
     ((query = [] \<or>
       sublist (toLowerCase query) (toLowerCase (name l @ category l @ description l)))
      \<and> (cat = [] \<or> category l = cat))"

definition spec_filter ::
  "(jsstring \<Rightarrow> jsstring) \<Rightarrow> jsstring \<Rightarrow> jsstring \<Rightarrow> marker_entry list \<Rightarrow> marker_entry list" where
  "spec_filter toLowerCase query cat ms =
     filter (\<lambda>e. spec_passes toLowerCase query cat (loc e)) ms"

text \<open>
  The rule with the two differences the script makes: the query is trimmed first, and the
  three fields are joined by single spaces.
\<close>

definition amended_passes ::
  "(jsstring \<Rightarrow> jsstring) \<Rightarrow> jsstring \<Rightarrow> jsstring \<Rightarrow> location \<Rightarrow> bool" where
  "amended_passes toLowerCase query cat l =
     ((trim query = [] \<or>
       sublist (toLowerCase (trim query))
         (toLowerCase (name l @ str '' '' @ category l @ str '' '' @ description l)))
      \<and> (cat = [] \<or> category l = cat))"

section \<open>Sample data\<close>

text \<open>
  A case mapping to run the filter with: the engine's on strings of Basic Latin and
  Latin-1 code units (\<open>A\<close>..\<open>Z\<close> and U+00C0..U+00DE without the multiplication sign
  U+00D7 move up by 32, every other code unit up to U+00FF stays).
\<close>

definition lowerUnit :: "16 word \<Rightarrow> 16 word" where
  "lowerUnit c =
     (if (0x41 \<le> c \<and> c \<le> 0x5A) \<or> (0xC0 \<le> c \<and> c \<le> 0xDE \<and> c \<noteq> 0xD7)
      then c + 0x20 else c)"

definition lowerLatin1 :: "jsstring \<Rightarrow> jsstring" where
  "lowerLatin1 s = map lowerUnit s"

text \<open>A record without image at the origin, and the entry the load loop makes of it.\<close>

definition sampleLocation :: "jsstring \<Rightarrow> jsstring \<Rightarrow> jsstring \<Rightarrow> location" where
  "sampleLocation n c d =
     \<lparr>name = n, category = c, description = d, lat = 0, lng = 0, image = None\<rparr>"

definition sampleEntry :: "nat \<Rightarrow> jsstring \<Rightarrow> jsstring \<Rightarrow> jsstring \<Rightarrow> marker_entry" where
  "sampleEntry i n c d =
     \<lparr>loc = sampleLocation n c d,
      marker = \<lparr>markerId = i, latlng = (0, 0), title = n, popup = []\<rparr>\<rparr>"

text \<open>Two records with coordinates, and a number printer for them.\<close>

definition zoo :: location where
  "zoo = \<lparr>name = str ''Zoo'', category = str ''Park'', description = str ''Animals'',
           lat = 40.77, lng = - 73.97, image = None\<rparr>"

definition cafe :: location where
  "cafe = \<lparr>name = str ''Cafe <b>'', category = str ''Food'',
            description = str ''Coffee & cake'', lat = 40.70, lng = - 74.00,
            image = Some (str ''img/cafe.jpg'')\<rparr>"

definition sampleNum :: "real \<Rightarrow> jsstring" where
  "sampleNum x = str ''0''"

text \<open>A record whose name and image URL carry markup.\<close>

definition evil :: location where
  \<open>evil = \<lparr>name = str ''<script>x</script>'', category = str ''Food'', description = str ''d'',
            lat = 0, lng = 0, image = Some (str ''x" onerror="alert(1)'')\<rparr>\<close>

section \<open>Strings: substring search and trimming\<close>

lemma includes_str_sublist: "includes_str s q = sublist q s"
  by (induction s) (auto simp: sublist_Cons_right)

lemma trim_Nil: "trim [] = []"
  by (simp add: trim_def)

lemma lowerLatin1_Nil_iff: "(lowerLatin1 s = []) = (s = [])"
  by (simp add: lowerLatin1_def)

lemma lowerLatin1_Nil: "lowerLatin1 [] = []"
  by (simp add: lowerLatin1_def)

lemma trim_whitespace:
  assumes "\<forall>c\<in>set s. isWhiteSpace c"
  shows "trim s = []"
proof -
  have h: "dropWhile isWhiteSpace s = []"
    using assms by (induction s) auto
  show ?thesis unfolding trim_def h by simp
qed

lemma trim_append:
  assumes l: "\<forall>c\<in>set l. isWhiteSpace c" and r: "\<forall>c\<in>set r. isWhiteSpace c"
  shows "trim (l @ q @ r) = trim q"
proof -
  have front: "dropWhile isWhiteSpace (l @ q @ r) = dropWhile isWhiteSpace (q @ r)"
    by (rule dropWhile_append2) (use l in auto)
  show ?thesis
  proof (cases "\<forall>c\<in>set q. isWhiteSpace c")
    case True
    then have "\<forall>c\<in>set (l @ q @ r). isWhiteSpace c"
      using l r by auto
    then have "trim (l @ q @ r) = []"
      by (rule trim_whitespace)
    moreover have "trim q = []"
      using True by (rule trim_whitespace)
    ultimately show ?thesis by simp
  next
    case False
    then have keep: "dropWhile isWhiteSpace (q @ r) = dropWhile isWhiteSpace q @ r"
      by (metis dropWhile_append1)
    have rear: "dropWhile isWhiteSpace (rev r @ rev (dropWhile isWhiteSpace q))
                  = dropWhile isWhiteSpace (rev (dropWhile isWhiteSpace q))"
      by (rule dropWhile_append2) (use r in auto)
    show ?thesis by (simp add: trim_def front keep rear)
  qed
qed

section \<open>The filter\<close>

text \<open>
  C1, as amended. For every record set, query and category, the filter returns exactly
  the entries, in source order, whose record passes this rule: the trimmed query is empty
  or the lowercased trimmed query is a substring of the lowercased string
  name, space, category, space, description; and the category selector is empty or equals
  the record's category. Lowercasing is the engine's, of which the proof uses this: it
  maps the empty string, and no other string, to the empty string.
\<close>

theorem filtered_amended_rule:
  assumes "\<forall>s. (lc s = []) = (s = [])"
  shows "filtered lc query cat ms = filter (\<lambda>e. amended_passes lc query cat (loc e)) ms"
proof -
  have "(lc (trim query) = []) = (trim query = [])"
    using assms by blast
  then show ?thesis
    by (simp add: filtered_def amended_passes_def matchesQ_def matchesCat_def Let_def
        includes_str_sublist)
qed

theorem filtered_amended_rule_witness:
  "(\<forall>s. (lowerLatin1 s = []) = (s = []))
   \<and> filtered lowerLatin1 (str '' A b '') []
        [sampleEntry 0 (str ''a'') (str ''B'') [], sampleEntry 1 (str ''ab'') [] []]
       = [sampleEntry 0 (str ''a'') (str ''B'') []]"
proof -
  have h: "\<forall>s. (lowerLatin1 s = []) = (s = [])"
    by (simp add: lowerLatin1_Nil_iff)
  have "filter (\<lambda>e. amended_passes lowerLatin1 (str '' A b '') [] (loc e))
          [sampleEntry 0 (str ''a'') (str ''B'') [], sampleEntry 1 (str ''ab'') [] []]
        = [sampleEntry 0 (str ''a'') (str ''B'') []]"
    by code_simp
  then have "filtered lowerLatin1 (str '' A b '') []
        [sampleEntry 0 (str ''a'') (str ''B'') [], sampleEntry 1 (str ''ab'') [] []]
       = [sampleEntry 0 (str ''a'') (str ''B'') []]"
    by (simp only: filtered_amended_rule [OF h])
  with h show ?thesis
    by blast
qed

text \<open>
  C1 as the specification states it fails on the script. The query \<open>ab\<close> is a substring
  of the concatenation \<open>ab\<close> of the name \<open>a\<close> and the category \<open>b\<close>, but not of the
  string \<open>a b \<close> the script searches; and the query of one space is not empty and no
  substring of \<open>ab\<close>, but the script trims it to the empty query, which every record
  passes. All the strings are lower-case ASCII, which every case mapping of an engine
  leaves as it is.
\<close>

theorem filtered_spec_rule_counterexample:
  "filtered lowerLatin1 (str ''ab'') [] [sampleEntry 0 (str ''a'') (str ''b'') []] = []
   \<and> spec_filter lowerLatin1 (str ''ab'') [] [sampleEntry 0 (str ''a'') (str ''b'') []]
       = [sampleEntry 0 (str ''a'') (str ''b'') []]
   \<and> filtered lowerLatin1 (str '' '') [] [sampleEntry 0 (str ''a'') (str ''b'') []]
       = [sampleEntry 0 (str ''a'') (str ''b'') []]
   \<and> spec_filter lowerLatin1 (str '' '') [] [sampleEntry 0 (str ''a'') (str ''b'') []] = []"
  by code_simp

text \<open>
  C4. Filtering with an empty query and an empty category returns the whole \<open>markers\<close>
  array in its order, for every case mapping that takes the empty string to the empty
  string, as the engine's does.
\<close>

theorem filtered_empty_identity: "lc [] = [] \<Longrightarrow> filtered lc [] [] ms = ms"
  by (simp add: filtered_def trim_Nil matchesQ_def matchesCat_def)

theorem filtered_empty_identity_witness:
  "lowerLatin1 [] = []
   \<and> filtered lowerLatin1 [] []
        [sampleEntry 0 (str ''Zoo'') (str ''Park'') [], sampleEntry 1 (str ''Bar'') (str ''Food'') []]
       = [sampleEntry 0 (str ''Zoo'') (str ''Park'') [], sampleEntry 1 (str ''Bar'') (str ''Food'') []]"
  using lowerLatin1_Nil filtered_empty_identity [where lc = lowerLatin1, OF lowerLatin1_Nil] by blast

text \<open>
  C5. With a non-empty category value, every entry the filter returns has exactly that
  category; the comparison is equality of strings, so \<open>park\<close> does not select \<open>Park\<close>.
\<close>

theorem filtered_category_exact:
  "cat \<noteq> [] \<Longrightarrow> \<forall>e\<in>set (filtered lc query cat ms). category (loc e) = cat"
  by (simp add: filtered_def matchesCat_def Let_def)

theorem filtered_category_exact_witness:
  "str ''Park'' \<noteq> []
   \<and> filtered lowerLatin1 [] (str ''Park'')
        [sampleEntry 0 (str ''Zoo'') (str ''Park'') [], sampleEntry 1 (str ''Bar'') (str ''park'') []]
       = [sampleEntry 0 (str ''Zoo'') (str ''Park'') []]
   \<and> category (loc (sampleEntry 0 (str ''Zoo'') (str ''Park'') [])) = str ''Park''"
proof -
  have ne: "str ''Park'' \<noteq> []"
    by (simp add: str_def)
  have res: "filtered lowerLatin1 [] (str ''Park'')
        [sampleEntry 0 (str ''Zoo'') (str ''Park'') [], sampleEntry 1 (str ''Bar'') (str ''park'') []]
       = [sampleEntry 0 (str ''Zoo'') (str ''Park'') []]"
    by code_simp
  from filtered_category_exact [OF ne, where lc = lowerLatin1 and query = "[]" and ms =
      "[sampleEntry 0 (str ''Zoo'') (str ''Park'') [], sampleEntry 1 (str ''Bar'') (str ''park'') []]"]
  have "category (loc (sampleEntry 0 (str ''Zoo'') (str ''Park'') [])) = str ''Park''"
    unfolding res by simp
  with ne res show ?thesis by blast
qed

text \<open>
  C9. The query is trimmed before matching. White space around a query does not count:
  the result is that of matching the lowercased trimmed query. For a query of white space
  only the query clause excludes no record: the result is what the category clause alone
  selects, the same as for the empty query. This is for every case mapping that takes the
  empty string to the empty string, as the engine's does.
\<close>

theorem filtered_query_trimmed:
  assumes "\<forall>c\<in>set l. isWhiteSpace c" and "\<forall>c\<in>set r. isWhiteSpace c" and "lc [] = []"
  shows "filtered lc (l @ query @ r) cat ms =
           filter (\<lambda>e. matchesQ lc (lc (trim query)) (loc e) \<and> matchesCat cat (loc e)) ms
         \<and> filtered lc l cat ms = filter (\<lambda>e. matchesCat cat (loc e)) ms
         \<and> filtered lc l cat ms = filtered lc [] cat ms"
proof -
  have around: "trim (l @ query @ r) = trim query"
    using assms(1,2) by (rule trim_append)
  have blank: "trim l = []"
    using assms(1) by (rule trim_whitespace)
  have first: "filtered lc (l @ query @ r) cat ms =
           filter (\<lambda>e. matchesQ lc (lc (trim query)) (loc e) \<and> matchesCat cat (loc e)) ms"
    by (simp add: filtered_def around)
  have second: "filtered lc l cat ms = filter (\<lambda>e. matchesCat cat (loc e)) ms"
    by (simp add: filtered_def blank assms(3) matchesQ_def)
  have third: "filtered lc l cat ms = filtered lc [] cat ms"
    by (simp add: filtered_def blank trim_Nil)
  from first second third show ?thesis
    by blast
qed

theorem filtered_query_trimmed_witness:
  "filtered lowerLatin1 (str '' '' @ str ''zoo'' @ [0x09, 0xA0]) []
      [sampleEntry 0 (str ''Zoo'') (str ''Park'') [], sampleEntry 1 (str ''Bar'') (str ''Food'') []]
     = [sampleEntry 0 (str ''Zoo'') (str ''Park'') []]
   \<and> filtered lowerLatin1 (str '' '') []
      [sampleEntry 0 (str ''Zoo'') (str ''Park'') [], sampleEntry 1 (str ''Bar'') (str ''Food'') []]
     = [sampleEntry 0 (str ''Zoo'') (str ''Park'') [], sampleEntry 1 (str ''Bar'') (str ''Food'') []]
   \<and> filtered lowerLatin1 ([0x0A, 0x3000] @ [] @ [0x20]) (str ''Food'')
      [sampleEntry 0 (str ''Zoo'') (str ''Park'') [], sampleEntry 1 (str ''Bar'') (str ''Food'') []]
     = [sampleEntry 1 (str ''Bar'') (str ''Food'') []]"
proof -
  have l: "\<forall>c\<in>set (str '' ''). isWhiteSpace c"
    by (simp add: str_def isWhiteSpace_def)
  have r: "\<forall>c\<in>set [0x09, 0xA0]. isWhiteSpace c"
    by (simp add: isWhiteSpace_def)
  have l': "\<forall>c\<in>set [0x0A, 0x3000]. isWhiteSpace c"
    by (simp add: isWhiteSpace_def)
  have r': "\<forall>c\<in>set [0x20]. isWhiteSpace c"
    by (simp add: isWhiteSpace_def)
  have zoo: "filter (\<lambda>e. matchesQ lowerLatin1 (lowerLatin1 (trim (str ''zoo''))) (loc e)
                 \<and> matchesCat [] (loc e))
      [sampleEntry 0 (str ''Zoo'') (str ''Park'') [], sampleEntry 1 (str ''Bar'') (str ''Food'') []]
     = [sampleEntry 0 (str ''Zoo'') (str ''Park'') []]"
    by code_simp
  have all: "filter (\<lambda>e. matchesCat [] (loc e))
      [sampleEntry 0 (str ''Zoo'') (str ''Park'') [], sampleEntry 1 (str ''Bar'') (str ''Food'') []]
     = [sampleEntry 0 (str ''Zoo'') (str ''Park'') [], sampleEntry 1 (str ''Bar'') (str ''Food'') []]"
    by code_simp
  have food: "filter (\<lambda>e. matchesQ lowerLatin1 (lowerLatin1 (trim [])) (loc e)
                 \<and> matchesCat (str ''Food'') (loc e))
      [sampleEntry 0 (str ''Zoo'') (str ''Park'') [], sampleEntry 1 (str ''Bar'') (str ''Food'') []]
     = [sampleEntry 1 (str ''Bar'') (str ''Food'') []]"
    by code_simp
  note a = filtered_query_trimmed [where lc = lowerLatin1, OF l r lowerLatin1_Nil,
      where query = "str ''zoo''" and cat = "[]"
      and ms = "[sampleEntry 0 (str ''Zoo'') (str ''Park'') [], sampleEntry 1 (str ''Bar'') (str ''Food'') []]",
      unfolded zoo all]
  note b = filtered_query_trimmed [where lc = lowerLatin1, OF l' r' lowerLatin1_Nil,
      where query = "[]" and cat = "str ''Food''"
      and ms = "[sampleEntry 0 (str ''Zoo'') (str ''Park'') [], sampleEntry 1 (str ''Bar'') (str ''Food'') []]",
      unfolded food]
  from a b show ?thesis
    by blast
qed

section \<open>Rendering, layers and page load\<close>

lemma fold_appendItem:
  "fold appendItem items s = s\<lparr>locationList := locationList s @ map listItem items\<rparr>"
  by (induction items arbitrary: s) (simp_all add: appendItem_def)

lemma renderList_eq: "renderList items s = s\<lparr>locationList := map listItem items\<rparr>"
  by (simp add: renderList_def fold_appendItem)

lemma insort_key_snoc:
  "\<forall>x\<in>set g. f x < f m \<Longrightarrow> insort_key f m g = g @ [m]"
  for f :: "'a \<Rightarrow> nat"
  by (induction g) auto

lemma addLayer_snoc:
  "\<forall>x\<in>set g. markerId x < markerId m \<Longrightarrow> addLayer m g = g @ [m]"
  by (auto simp: addLayer_def insort_key_snoc)

lemma fold_addLayer_sorted:
  "sorted_wrt (<) (map markerId (g @ ms)) \<Longrightarrow> fold addLayer ms g = g @ ms"
proof (induction ms arbitrary: g)
  case Nil
  then show ?case by simp
next
  case (Cons m ms)
  from Cons.prems have lt: "\<forall>x\<in>set g. markerId x < markerId m"
    by (auto simp: sorted_wrt_append)
  from Cons.prems have "sorted_wrt (<) (map markerId ((g @ [m]) @ ms))" by simp
  then have "fold addLayer ms (g @ [m]) = (g @ [m]) @ ms" by (rule Cons.IH)
  then show ?case by (simp add: addLayer_snoc [OF lt])
qed

lemma idsSorted_filtered: "idsSorted ms \<Longrightarrow> idsSorted (filtered lc q cat ms)"
  by (simp add: idsSorted_def filtered_def Let_def sorted_wrt_map sorted_wrt_filter)

lemma fold_addLayer_entries:
  "idsSorted f \<Longrightarrow> fold addLayer (map marker f) [] = map marker f"
  using fold_addLayer_sorted [of "[]" "map marker f"]
  by (simp add: idsSorted_def comp_def)

lemma applyFilters_eq:
  assumes "idsSorted (markers s)"
  shows "applyFilters lc s =
    fitViewport (map marker (shown lc s))
      (s\<lparr>openPopup := None, markerGroup := map marker (shown lc s),
         locationList := map listItem (shown lc s)\<rparr>)"
  using fold_addLayer_entries [OF idsSorted_filtered [OF assms]]
  by (simp add: applyFilters_def Let_def renderList_eq shown_def)

lemma loadedFrom_ids:
  "map (\<lambda>e. markerId (marker e)) (loadedFrom n k ls) = [k..<k + length ls]"
  by (induction ls arbitrary: k) (simp_all add: upt_rec)

lemma loadedFrom_loc: "map loc (loadedFrom n k ls) = ls"
  by (induction ls arbitrary: k) simp_all

lemma loadedFrom_latlng:
  "map (\<lambda>e. latlng (marker e)) (loadedFrom n k ls) = map (\<lambda>l. (lat l, lng l)) ls"
  by (induction ls arbitrary: k) simp_all

lemma loadedFrom_Nil_iff: "loadedFrom n k ls = [] \<longleftrightarrow> ls = []"
  by (cases ls) simp_all

lemma idsSorted_loadedFrom: "idsSorted (loadedFrom n k ls)"
  by (simp add: idsSorted_def loadedFrom_ids)

lemma fold_addMarker:
  "\<forall>x\<in>set (markerGroup s). markerId x < lastId s \<Longrightarrow>
   fold (addMarker n) ls s =
     s\<lparr>lastId := lastId s + length ls,
       markerGroup := markerGroup s @ map marker (loadedFrom n (lastId s) ls),
       markers := markers s @ loadedFrom n (lastId s) ls\<rparr>"
proof (induction ls arbitrary: s)
  case Nil
  then show ?case by simp
next
  case (Cons l ls)
  let ?m = "\<lparr>markerId = lastId s, latlng = (lat l, lng l), title = name l,
              popup = createPopupHTML n l\<rparr>"
  have add: "addLayer ?m (markerGroup s) = markerGroup s @ [?m]"
    by (rule addLayer_snoc) (use Cons.prems in simp)
  have one: "addMarker n l s =
      s\<lparr>lastId := Suc (lastId s), markerGroup := markerGroup s @ [?m],
        markers := markers s @ [\<lparr>loc = l, marker = ?m\<rparr>]\<rparr>"
    by (simp add: addMarker_def Let_def add)
  have below: "\<forall>x\<in>set (markerGroup (addMarker n l s)). markerId x < lastId (addMarker n l s)"
    using Cons.prems by (auto simp: one less_Suc_eq)
  show ?case
    by (simp add: Cons.IH [OF below]) (simp add: one)
qed

lemma fitViewport_eq:
  "fitViewport ms s = (if ms = [] then s else s\<lparr>mapView := FitBounds (map latlng ms) (12 / 100)\<rparr>)"
  by (simp add: fitViewport_def)

lemma init_eq:
  "init n geo locs =
     \<lparr>markers = loadedFrom n 0 locs, markerGroup = map marker (loadedFrom n 0 locs),
      overlay = [],
      mapView = (if locs = [] then SetView (40.7831, - 73.9712) 12 False
                 else FitBounds (map (\<lambda>l. (lat l, lng l)) locs) (12 / 100)),
      openPopup = None, locationList = map listItem (loadedFrom n 0 locs),
      searchInput = [], categoryFilter = [], locateDisabled = False,
      locateText = idleLabel, alerts = [], geolocation = geo, pending = 0, timers = [],
      clock = 0, lastId = length locs\<rparr>"
  by (simp add: init_def Let_def fold_addMarker renderList_eq fitViewport_eq
      loadedFrom_Nil_iff loadedFrom_latlng comp_def)


lemma filtered_no_constraint: "lc [] = [] \<Longrightarrow> filtered lc [] [] ms = ms"
  by (simp add: filtered_def trim_def matchesQ_def matchesCat_def)

lemma fold_fireTimer:
  "fold fireTimer ts s =
     (if ts = [] then s
      else s\<lparr>overlay := filter (\<lambda>c. circleId c \<notin> snd ` set ts) (overlay s),
             locateDisabled := False, locateText := idleLabel\<rparr>)"
proof (induction ts arbitrary: s)
  case Nil
  then show ?case by simp
next
  case (Cons t ts)
  have "filter (\<lambda>c. circleId c \<notin> snd ` set ts) (filter (\<lambda>c. circleId c \<noteq> snd t) (overlay s))
        = filter (\<lambda>c. circleId c \<notin> snd ` set (t # ts)) (overlay s)"
    by (auto intro: filter_cong)
  then show ?case
    by (simp add: Cons.IH) (simp add: fireTimer_def)
qed

lemma elapse_eq:
  "elapse dt s =
     (if filter (\<lambda>x. fst x \<le> clock s + dt) (timers s) = []
      then s\<lparr>timers := filter (\<lambda>x. \<not> fst x \<le> clock s + dt) (timers s), clock := clock s + dt\<rparr>
      else s\<lparr>timers := filter (\<lambda>x. \<not> fst x \<le> clock s + dt) (timers s), clock := clock s + dt,
             overlay := filter (\<lambda>c. circleId c \<notin> snd ` {x \<in> set (timers s). fst x \<le> clock s + dt})
                          (overlay s),
             locateDisabled := False, locateText := idleLabel\<rparr>)"
proof -
  have "sort_key fst xs = [] \<longleftrightarrow> xs = []" for xs :: "(nat \<times> nat) list"
    by (metis length_sort length_0_conv)
  then show ?thesis
    by (simp add: elapse_def Let_def fold_fireTimer)
qed

lemma consistent_init: "lc [] = [] \<Longrightarrow> consistent lc (init n geo locs)"
  by (simp add: consistent_def shown_def init_eq filtered_no_constraint idsSorted_loadedFrom)

lemma consistent_applyFilters: "idsSorted (markers s) \<Longrightarrow> consistent lc (applyFilters lc s)"
  by (simp add: applyFilters_eq fitViewport_eq consistent_def shown_def)

lemma markers_applyFilters: "markers (applyFilters lc s) = markers s"
  by (simp add: applyFilters_def Let_def renderList_eq fitViewport_eq)

lemma consistent_step: "consistent lc s \<Longrightarrow> consistent lc (step lc e s)"
proof (cases e)
  case (Input q)
  assume "consistent lc s"
  then have "idsSorted (markers (s\<lparr>searchInput := q\<rparr>))" by (simp add: consistent_def)
  then show ?thesis unfolding Input step.simps by (rule consistent_applyFilters)
next
  case (Change c)
  assume "consistent lc s"
  then have "idsSorted (markers (s\<lparr>categoryFilter := c\<rparr>))" by (simp add: consistent_def)
  then show ?thesis unfolding Change step.simps by (rule consistent_applyFilters)
next
  case (ClickItem i)
  assume "consistent lc s"
  then show ?thesis by (simp add: ClickItem consistent_def shown_def listItemClick_def)
next
  case ClickLocate
  assume "consistent lc s"
  then show ?thesis by (simp add: ClickLocate consistent_def shown_def locateClick_def)
next
  case (GeoSuccess la lo)
  assume "consistent lc s"
  then show ?thesis by (simp add: GeoSuccess consistent_def shown_def locateSuccess_def)
next
  case (GeoError msg)
  assume "consistent lc s"
  then show ?thesis by (simp add: GeoError consistent_def shown_def locateError_def)
next
  case (Elapse dt)
  assume "consistent lc s"
  then show ?thesis by (simp add: Elapse consistent_def shown_def elapse_eq)
qed

lemma markers_step: "markers (step lc e s) = markers s"
  by (cases e)
    (simp_all add: markers_applyFilters listItemClick_def locateClick_def locateSuccess_def
      locateError_def elapse_eq)

lemma run_snoc: "run lc (es @ [e]) s = step lc e (run lc es s)"
  by (simp add: run_def)

lemma consistent_run: "consistent lc s \<Longrightarrow> consistent lc (run lc es s)"
  by (induction es rule: rev_induct) (simp_all add: run_def consistent_step)

lemma markers_run: "markers (run lc es s) = markers s"
  by (induction es rule: rev_induct) (simp_all add: run_def markers_step)

lemma consistent_displays: "consistent lc s \<Longrightarrow> displays s (shown lc s)"
  by (simp add: consistent_def displays_def listItem_def comp_def)

lemma shown_Input: "shown lc (step lc (Input q) s) = filtered lc q (categoryFilter s) (markers s)"
  by (simp add: shown_def applyFilters_def Let_def renderList_eq fitViewport_eq)

lemma shown_Change: "shown lc (step lc (Change c) s) = filtered lc (searchInput s) c (markers s)"
  by (simp add: shown_def applyFilters_def Let_def renderList_eq fitViewport_eq)

lemma subseq_filtered: "subseq (filtered lc q c ms) ms"
  by (simp add: filtered_def Let_def)

section \<open>The displayed subset\<close>

text \<open>
  C3. After every change of the search box or of the category selector, in any state
  the page reaches from load, the layer group and the sidebar show the same entries: the
  output of the filter for the current query and category, in its order, one list entry
  per visible marker. That output is a subsequence of the \<open>markers\<close> array, whose
  records are the source records in their order. The same holds in every state the page
  reaches from load, the first included, when the case mapping takes the empty string to
  the empty string, as the engine's does.
\<close>

theorem display_consistent:
  assumes "s = run lc es (init n geo locs)"
  shows "(lc [] = [] \<longrightarrow>
          displays s (filtered lc (searchInput s) (categoryFilter s) (markers s)))
       \<and> displays (step lc (Input q) s) (filtered lc q (categoryFilter s) (markers s))
       \<and> displays (step lc (Change c) s) (filtered lc (searchInput s) c (markers s))
       \<and> subseq (filtered lc q c (markers s)) (markers s)
       \<and> map loc (markers s) = locs"
proof -
  have ids: "idsSorted (markers s)"
    by (simp add: assms markers_run init_eq idsSorted_loadedFrom)
  have now: "lc [] = [] \<longrightarrow>
          displays s (filtered lc (searchInput s) (categoryFilter s) (markers s))"
  proof
    assume "lc [] = []"
    then have "consistent lc (init n geo locs)"
      by (rule consistent_init)
    then have "consistent lc s"
      unfolding assms by (rule consistent_run)
    then have "displays s (shown lc s)"
      by (rule consistent_displays)
    then show "displays s (filtered lc (searchInput s) (categoryFilter s) (markers s))"
      by (simp only: shown_def)
  qed
  have "consistent lc (applyFilters lc (s\<lparr>searchInput := q\<rparr>))"
    by (rule consistent_applyFilters) (simp add: ids)
  then have "displays (step lc (Input q) s) (shown lc (step lc (Input q) s))"
    by (simp add: consistent_displays)
  then have inp: "displays (step lc (Input q) s) (filtered lc q (categoryFilter s) (markers s))"
    by (simp only: shown_Input)
  have "consistent lc (applyFilters lc (s\<lparr>categoryFilter := c\<rparr>))"
    by (rule consistent_applyFilters) (simp add: ids)
  then have "displays (step lc (Change c) s) (shown lc (step lc (Change c) s))"
    by (simp add: consistent_displays)
  then have chg: "displays (step lc (Change c) s) (filtered lc (searchInput s) c (markers s))"
    by (simp only: shown_Change)
  have src: "map loc (markers s) = locs"
    by (simp add: assms markers_run init_eq loadedFrom_loc)
  from now inp chg subseq_filtered src show ?thesis
    by blast
qed

theorem display_consistent_witness:
  "lowerLatin1 [] = []
   \<and> displays (run lowerLatin1 [ClickLocate] (init sampleNum True [zoo, cafe]))
       (filtered lowerLatin1 (searchInput (run lowerLatin1 [ClickLocate] (init sampleNum True [zoo, cafe])))
          (categoryFilter (run lowerLatin1 [ClickLocate] (init sampleNum True [zoo, cafe])))
          (markers (run lowerLatin1 [ClickLocate] (init sampleNum True [zoo, cafe]))))
   \<and> displays (step lowerLatin1 (Input (str ''zoo'')) (run lowerLatin1 [ClickLocate] (init sampleNum True [zoo, cafe])))
       (filtered lowerLatin1 (str ''zoo'') (categoryFilter (run lowerLatin1 [ClickLocate] (init sampleNum True [zoo, cafe])))
          (markers (run lowerLatin1 [ClickLocate] (init sampleNum True [zoo, cafe]))))
   \<and> map markerId
        (markerGroup (step lowerLatin1 (Input (str ''zoo'')) (run lowerLatin1 [ClickLocate] (init sampleNum True [zoo, cafe]))))
       = [0]
   \<and> length (locationList (step lowerLatin1 (Input (str ''zoo'')) (run lowerLatin1 [ClickLocate] (init sampleNum True [zoo, cafe]))))
       = 1"
proof -
  have ids: "map markerId
        (markerGroup (step lowerLatin1 (Input (str ''zoo'')) (run lowerLatin1 [ClickLocate] (init sampleNum True [zoo, cafe]))))
       = [0]"
    by code_simp
  have len: "length (locationList (step lowerLatin1 (Input (str ''zoo'')) (run lowerLatin1 [ClickLocate] (init sampleNum True [zoo, cafe]))))
       = 1"
    by code_simp
  from display_consistent [where lc = lowerLatin1 and es = "[ClickLocate]" and n = sampleNum
      and geo = True and locs = "[zoo, cafe]" and q = "str ''zoo''", OF refl]
    lowerLatin1_Nil ids len
  show ?thesis by blast
qed

section \<open>The viewport\<close>

text \<open>
  C6. The viewport fit changes the map view only for a non-empty subset, to the fit of
  the subset's coordinates padded by 12 percent; for the empty subset it changes nothing.
  So \<open>applyFilters\<close> keeps the prior view when nothing matches, and page load keeps the
  initial view when there are no records.
\<close>

theorem fit_viewport:
  "fitViewport ms s =
     (if ms = [] then s else s\<lparr>mapView := FitBounds (map latlng ms) (12 / 100)\<rparr>)
   \<and> mapView (applyFilters lc s) =
       (if shown lc s = [] then mapView s
        else FitBounds (map (\<lambda>e. latlng (marker e)) (shown lc s)) (12 / 100))
   \<and> mapView (init n geo locs) =
       (if locs = [] then SetView (40.7831, - 73.9712) 12 False
        else FitBounds (map (\<lambda>l. (lat l, lng l)) locs) (12 / 100))"
  by (simp add: fitViewport_eq init_eq applyFilters_def Let_def renderList_eq shown_def comp_def)


theorem fit_viewport_witness:
  "fitViewport [] (init sampleNum True [zoo, cafe]) = init sampleNum True [zoo, cafe]
   \<and> mapView (step lowerLatin1 (Input (str ''zzz'')) (run lowerLatin1 [ClickItem 1] (init sampleNum True [zoo, cafe])))
       = SetView (40.70, - 74.00) 15 True
   \<and> mapView (step lowerLatin1 (Input (str ''o'')) (run lowerLatin1 [ClickItem 1] (init sampleNum True [zoo, cafe])))
       = FitBounds [(40.77, - 73.97), (40.70, - 74.00)] (12 / 100)"
proof -
  have none: "mapView (step lowerLatin1 (Input (str ''zzz'')) (run lowerLatin1 [ClickItem 1] (init sampleNum True [zoo, cafe])))
       = SetView (40.70, - 74.00) 15 True"
    by code_simp
  have both: "mapView (step lowerLatin1 (Input (str ''o'')) (run lowerLatin1 [ClickItem 1] (init sampleNum True [zoo, cafe])))
       = FitBounds [(40.77, - 73.97), (40.70, - 74.00)] (12 / 100)"
    by code_simp
  from fit_viewport [of "[]" "init sampleNum True [zoo, cafe]"]
  have "fitViewport [] (init sampleNum True [zoo, cafe]) = init sampleNum True [zoo, cafe]"
    by simp
  with none both show ?thesis by blast
qed

section \<open>The locate control and its timer\<close>

lemma due_Nil_iff:
  "filter (\<lambda>x. fst x \<le> t) ts = [] \<longleftrightarrow> (\<forall>x\<in>set ts. \<not> fst x \<le> t)"
  by (simp add: filter_empty_conv)

lemma overlay_elapse:
  "overlay (elapse dt s) =
     filter (\<lambda>c. circleId c \<notin> snd ` {x \<in> set (timers s). fst x \<le> clock s + dt}) (overlay s)"
proof (cases "filter (\<lambda>x. fst x \<le> clock s + dt) (timers s) = []")
  case True
  then have "{x \<in> set (timers s). fst x \<le> clock s + dt} = {}"
    by (auto simp: due_Nil_iff)
  then have "filter (\<lambda>c. circleId c \<notin> snd ` {x \<in> set (timers s). fst x \<le> clock s + dt})
               (overlay s) = overlay s"
    by (simp only: image_empty empty_iff not_False_eq_True) simp
  moreover have "overlay (elapse dt s) = overlay s"
    by (simp add: elapse_eq True)
  ultimately show ?thesis by (simp only:)
next
  case False
  then show ?thesis by (simp add: elapse_eq)
qed

lemma timers_elapse:
  "timers (elapse dt s) = filter (\<lambda>x. \<not> fst x \<le> clock s + dt) (timers s)"
  by (simp add: elapse_eq)

lemma clock_elapse: "clock (elapse dt s) = clock s + dt"
  by (simp add: elapse_eq)

lemma lastId_elapse: "lastId (elapse dt s) = lastId s"
  by (simp add: elapse_eq)

lemma button_elapse:
  "locateDisabled (elapse dt s) =
     (if \<exists>x\<in>set (timers s). fst x \<le> clock s + dt then False else locateDisabled s)"
  "locateText (elapse dt s) =
     (if \<exists>x\<in>set (timers s). fst x \<le> clock s + dt then idleLabel else locateText s)"
  by (simp_all add: elapse_eq due_Nil_iff)

lemma frame_applyFilters: "quiet s (applyFilters lc s)"
  by (simp add: quiet_def applyFilters_def Let_def renderList_eq fitViewport_eq)

lemma button_applyFilters:
  "locateDisabled (applyFilters lc s) = locateDisabled s" "locateText (applyFilters lc s) = locateText s"
  by (simp_all add: applyFilters_def Let_def renderList_eq fitViewport_eq)

lemma quiet_field: "quiet (s\<lparr>searchInput := q\<rparr>) s' = quiet s s'"
  "quiet (s\<lparr>categoryFilter := q\<rparr>) s' = quiet s s'"
  by (simp_all add: quiet_def)

lemma step_kinds:
  "quiet s (step lc e s)
   \<or> (\<exists>la lo. e = GeoSuccess la lo \<and> step lc e s = locateSuccess la lo (s\<lparr>pending := pending s - 1\<rparr>))
   \<or> (\<exists>dt. e = Elapse dt)"
proof (cases e)
  case (Input q)
  have "quiet (s\<lparr>searchInput := q\<rparr>) (applyFilters lc (s\<lparr>searchInput := q\<rparr>))"
    by (rule frame_applyFilters)
  then show ?thesis by (simp add: Input quiet_field)
next
  case (Change c)
  have "quiet (s\<lparr>categoryFilter := c\<rparr>) (applyFilters lc (s\<lparr>categoryFilter := c\<rparr>))"
    by (rule frame_applyFilters)
  then show ?thesis by (simp add: Change quiet_field)
next
  case (ClickItem i)
  then show ?thesis by (simp add: quiet_def listItemClick_def)
next
  case ClickLocate
  then show ?thesis by (simp add: quiet_def locateClick_def)
next
  case (GeoSuccess la lo)
  then show ?thesis by (simp add: quiet_def)
next
  case (GeoError msg)
  then show ?thesis by (simp add: quiet_def locateError_def)
next
  case (Elapse dt)
  then show ?thesis by simp
qed

lemma clock_step: "clock (step lc e s) = clock s + elapsed [e]"
  using step_kinds [where s = s and e = e and lc = lc]
  by (cases e) (auto simp: quiet_def locateSuccess_def clock_elapse)

lemma elapsed_append: "elapsed (es @ es') = elapsed es + elapsed es'"
  by (induction es rule: elapsed.induct) simp_all

lemma clock_run: "clock (run lc es s) = clock s + elapsed es"
proof (induction es rule: rev_induct)
  case Nil
  then show ?case by (simp add: run_def)
next
  case (snoc e es)
  then show ?case by (simp add: run_snoc clock_step elapsed_append)
qed

lemma fresh_elapse: "fresh s \<Longrightarrow> fresh (elapse dt s)"
  by (simp add: fresh_def overlay_elapse timers_elapse lastId_elapse)

lemma fresh_step: "fresh s \<Longrightarrow> fresh (step lc e s)"
  using step_kinds [where s = s and e = e and lc = lc]
proof (elim disjE exE conjE)
  assume "fresh s" "quiet s (step lc e s)"
  then show ?thesis by (simp add: fresh_def quiet_def)
next
  fix la lo
  assume "fresh s" "step lc e s = locateSuccess la lo (s\<lparr>pending := pending s - 1\<rparr>)"
  then show ?thesis by (auto simp: fresh_def locateSuccess_def less_Suc_eq)
next
  fix dt
  assume "fresh s" "e = Elapse dt"
  then show ?thesis by (simp add: fresh_elapse)
qed

lemma fresh_init: "fresh (init n geo locs)"
  by (simp add: fresh_def init_eq)

lemma fresh_run: "fresh s \<Longrightarrow> fresh (run lc es s)"
  by (induction es rule: rev_induct) (simp_all add: run_def fresh_step)

lemma tracked_elapse: "tracked d mk s \<Longrightarrow> tracked d mk (elapse dt s)"
  by (auto simp: tracked_def overlay_elapse timers_elapse lastId_elapse clock_elapse image_iff
      split: if_splits)

lemma tracked_step: "tracked d mk s \<Longrightarrow> tracked d mk (step lc e s)"
  using step_kinds [where s = s and e = e and lc = lc]
proof (elim disjE exE conjE)
  assume "tracked d mk s" "quiet s (step lc e s)"
  then show ?thesis by (simp add: tracked_def quiet_def)
next
  fix la lo
  assume "tracked d mk s" "step lc e s = locateSuccess la lo (s\<lparr>pending := pending s - 1\<rparr>)"
  then show ?thesis by (auto simp: tracked_def locateSuccess_def split: if_splits)
next
  fix dt
  assume "tracked d mk s" "e = Elapse dt"
  then show ?thesis by (simp add: tracked_elapse)
qed

lemma tracked_run: "tracked d mk s \<Longrightarrow> tracked d mk (run lc es s)"
  by (induction es rule: rev_induct) (simp_all add: run_def tracked_step)

lemma tracked_locateSuccess:
  "fresh s \<Longrightarrow>
   tracked (clock s + 6000) \<lparr>circleId = lastId s, circleLatLng = (la, lo)\<rparr> (locateSuccess la lo s)"
  by (auto simp: tracked_def fresh_def locateSuccess_def)

lemma settled_step: "e \<noteq> ClickLocate \<Longrightarrow> settled d i s \<Longrightarrow> settled d i (step lc e s)"
proof (cases e)
  case (Input q)
  assume "settled d i s"
  moreover have "quiet (s\<lparr>searchInput := q\<rparr>) (applyFilters lc (s\<lparr>searchInput := q\<rparr>))"
    by (rule frame_applyFilters)
  ultimately show ?thesis by (simp add: Input settled_def quiet_def button_applyFilters)
next
  case (Change c)
  assume "settled d i s"
  moreover have "quiet (s\<lparr>categoryFilter := c\<rparr>) (applyFilters lc (s\<lparr>categoryFilter := c\<rparr>))"
    by (rule frame_applyFilters)
  ultimately show ?thesis by (simp add: Change settled_def quiet_def button_applyFilters)
next
  case (ClickItem k)
  assume "settled d i s"
  then show ?thesis by (simp add: ClickItem settled_def listItemClick_def)
next
  case ClickLocate
  assume "e \<noteq> ClickLocate"
  with ClickLocate show ?thesis by simp
next
  case (GeoSuccess la lo)
  assume "settled d i s"
  then show ?thesis by (simp add: GeoSuccess settled_def locateSuccess_def)
next
  case (GeoError msg)
  assume "settled d i s"
  then show ?thesis by (simp add: GeoError settled_def locateError_def)
next
  case (Elapse dt)
  assume "settled d i s"
  then show ?thesis
    by (auto simp: Elapse settled_def timers_elapse clock_elapse button_elapse split: if_splits)
qed

lemma settled_run: "ClickLocate \<notin> set es \<Longrightarrow> settled d i s \<Longrightarrow> settled d i (run lc es s)"
proof (induction es rule: rev_induct)
  case Nil
  then show ?case by (simp add: run_def)
next
  case (snoc e es)
  then have "settled d i (run lc es s)" and "e \<noteq> ClickLocate"
    by auto
  then show ?case by (simp add: run_snoc settled_step)
qed

lemma overlay_step: "\<not> isGeoSuccess e \<Longrightarrow> set (overlay (step lc e s)) \<subseteq> set (overlay s)"
  using step_kinds [where s = s and e = e and lc = lc]
  by (auto simp: quiet_def overlay_elapse)

lemma overlay_run:
  "\<forall>e\<in>set es. \<not> isGeoSuccess e \<Longrightarrow> set (overlay (run lc es s)) \<subseteq> set (overlay s)"
proof (induction es rule: rev_induct)
  case Nil
  then show ?case by (simp add: run_def)
next
  case (snoc e es)
  then have "set (overlay (run lc es s)) \<subseteq> set (overlay s)" by simp
  moreover have "set (overlay (step lc e (run lc es s))) \<subseteq> set (overlay (run lc es s))"
    by (rule overlay_step) (use snoc.prems in simp)
  ultimately show ?case unfolding run_snoc by (rule subset_trans [rotated])
qed

text \<open>
  C7. In a state reached from page load with a position request in flight, the success
  callback with the coordinates \<open>(la, lo)\<close> sets the map view to that centre at zoom 14
  and puts a circle marker there. Whatever events follow, the marker is on the map while
  less than 6000 ms have passed and off it once 6000 ms have passed; and once 6000 ms have
  passed without a click on the locate button, the button is enabled and carries its idle
  label.
\<close>

theorem locate_success:
  assumes "s = run lc es (init n geo locs)" and "pending s \<noteq> 0"
    and "s1 = step lc (GeoSuccess la lo) s"
    and "mk = \<lparr>circleId = lastId s, circleLatLng = (la, lo)\<rparr>"
  shows "mapView s1 = SetView (la, lo) 14 True
       \<and> mk \<in> set (overlay s1)
       \<and> (elapsed es' < 6000 \<longrightarrow> mk \<in> set (overlay (run lc es' s1)))
       \<and> (6000 \<le> elapsed es' \<longrightarrow> mk \<notin> set (overlay (run lc es' s1)))
       \<and> (6000 \<le> elapsed es' \<and> ClickLocate \<notin> set es' \<longrightarrow>
            \<not> locateDisabled (run lc es' s1) \<and> locateText (run lc es' s1) = idleLabel)"
proof -
  let ?s0 = "s\<lparr>pending := pending s - 1\<rparr>"
  have s1: "s1 = locateSuccess la lo ?s0"
    using assms(2,3) by simp
  have "fresh s"
    unfolding assms(1) by (rule fresh_run [OF fresh_init])
  then have "fresh ?s0"
    by (simp add: fresh_def)
  then have "tracked (clock ?s0 + 6000) \<lparr>circleId = lastId ?s0, circleLatLng = (la, lo)\<rparr> s1"
    unfolding s1 by (rule tracked_locateSuccess)
  then have "tracked (clock s + 6000) mk s1"
    by (simp add: assms(4))
  then have tr: "tracked (clock s + 6000) mk (run lc es' s1)"
    by (rule tracked_run)
  have clk: "clock (run lc es' s1) = clock s + elapsed es'"
    by (simp add: clock_run s1 locateSuccess_def)
  have "settled (clock s + 6000) (lastId s) s1"
    by (simp add: settled_def s1 locateSuccess_def)
  then have st: "ClickLocate \<notin> set es' \<Longrightarrow> settled (clock s + 6000) (lastId s) (run lc es' s1)"
    by (rule settled_run [rotated])
  have view: "mapView s1 = SetView (la, lo) 14 True" and here: "mk \<in> set (overlay s1)"
    by (simp_all add: s1 locateSuccess_def assms(4))
  have before: "elapsed es' < 6000 \<longrightarrow> mk \<in> set (overlay (run lc es' s1))"
    using tr by (simp add: tracked_def clk)
  have after: "6000 \<le> elapsed es' \<longrightarrow> mk \<notin> set (overlay (run lc es' s1))"
    using tr by (auto simp: tracked_def clk)
  have idle: "6000 \<le> elapsed es' \<and> ClickLocate \<notin> set es' \<longrightarrow>
            \<not> locateDisabled (run lc es' s1) \<and> locateText (run lc es' s1) = idleLabel"
    using st by (auto simp: settled_def clk)
  from view here before after idle show ?thesis
    by blast
qed

theorem locate_success_witness:
  "pending (run lowerLatin1 [ClickLocate] (init sampleNum True [zoo])) \<noteq> 0
   \<and> mapView (step lowerLatin1 (GeoSuccess 40.70 (- 74.00)) (run lowerLatin1 [ClickLocate] (init sampleNum True [zoo])))
       = SetView (40.70, - 74.00) 14 True
   \<and> \<lparr>circleId = 1, circleLatLng = (40.70, - 74.00)\<rparr>
       \<in> set (overlay (run lowerLatin1 [Elapse 2000, Input [], Elapse 3999]
                 (step lowerLatin1 (GeoSuccess 40.70 (- 74.00)) (run lowerLatin1 [ClickLocate] (init sampleNum True [zoo])))))
   \<and> \<lparr>circleId = 1, circleLatLng = (40.70, - 74.00)\<rparr>
       \<notin> set (overlay (run lowerLatin1 [Elapse 2000, Input [], Elapse 4000]
                 (step lowerLatin1 (GeoSuccess 40.70 (- 74.00)) (run lowerLatin1 [ClickLocate] (init sampleNum True [zoo])))))
   \<and> \<not> locateDisabled (run lowerLatin1 [Elapse 2000, Input [], Elapse 4000]
         (step lowerLatin1 (GeoSuccess 40.70 (- 74.00)) (run lowerLatin1 [ClickLocate] (init sampleNum True [zoo]))))
   \<and> locateText (run lowerLatin1 [Elapse 2000, Input [], Elapse 4000]
         (step lowerLatin1 (GeoSuccess 40.70 (- 74.00)) (run lowerLatin1 [ClickLocate] (init sampleNum True [zoo]))))
       = idleLabel"
proof -
  have p: "pending (run lowerLatin1 [ClickLocate] (init sampleNum True [zoo])) \<noteq> 0"
    by (simp add: run_def init_eq locateClick_def)
  have i: "lastId (run lowerLatin1 [ClickLocate] (init sampleNum True [zoo])) = 1"
    by (simp add: run_def init_eq locateClick_def)
  note early = locate_success [OF refl p refl refl, where la = "40.70" and lo = "- 74.00"
      and es' = "[Elapse 2000, Input [], Elapse 3999]", unfolded i]
  note late = locate_success [OF refl p refl refl, where la = "40.70" and lo = "- 74.00"
      and es' = "[Elapse 2000, Input [], Elapse 4000]", unfolded i]
  have e1: "elapsed [Elapse 2000, Input [], Elapse 3999] < 6000"
    by simp
  have e2: "6000 \<le> elapsed [Elapse 2000, Input [], Elapse 4000]"
    by simp
  have e3: "ClickLocate \<notin> set [Elapse 2000, Input [], Elapse 4000]"
    by simp
  from early late e1 e2 e3 p show ?thesis
    by blast
qed

text \<open>
  C8. The error callback enables the locate button and restores its idle label at once,
  shows one notification whose text ends with the message of the error, and adds no
  circle marker and no timer; no later event other than a success callback adds one.
\<close>

theorem locate_error:
  assumes "s1 = locateError msg s"
  shows "\<not> locateDisabled s1 \<and> locateText s1 = idleLabel
       \<and> alerts s1 = alerts s @ [str ''Could not get location: '' @ msg]
       \<and> sublist msg (last (alerts s1))
       \<and> overlay s1 = overlay s \<and> timers s1 = timers s
       \<and> ((\<forall>e\<in>set es. \<not> isGeoSuccess e) \<longrightarrow> set (overlay (run lc es s1)) \<subseteq> set (overlay s))"
proof -
  have "overlay s1 = overlay s"
    by (simp add: assms locateError_def)
  then have "(\<forall>e\<in>set es. \<not> isGeoSuccess e) \<longrightarrow> set (overlay (run lc es s1)) \<subseteq> set (overlay s)"
    using overlay_run [where es = es and s = s1 and lc = lc] by simp
  then show ?thesis
    by (simp add: assms locateError_def)
qed

theorem locate_error_witness:
  "\<not> locateDisabled (locateError (str ''User denied Geolocation'')
        (run lowerLatin1 [ClickLocate] (init sampleNum True [zoo])))
   \<and> locateText (locateError (str ''User denied Geolocation'')
        (run lowerLatin1 [ClickLocate] (init sampleNum True [zoo]))) = idleLabel
   \<and> alerts (locateError (str ''User denied Geolocation'')
        (run lowerLatin1 [ClickLocate] (init sampleNum True [zoo])))
       = [str ''Could not get location: '' @ str ''User denied Geolocation'']
   \<and> overlay (run lowerLatin1 [Elapse 7000, ClickLocate]
        (locateError (str ''User denied Geolocation'')
          (run lowerLatin1 [ClickLocate] (init sampleNum True [zoo])))) = []"
proof -
  have a: "alerts (run lowerLatin1 [ClickLocate] (init sampleNum True [zoo])) = []"
    by (simp add: run_def init_eq locateClick_def)
  have v: "overlay (run lowerLatin1 [ClickLocate] (init sampleNum True [zoo])) = []"
    by (simp add: run_def init_eq locateClick_def)
  have e: "\<forall>e\<in>set [Elapse 7000, ClickLocate]. \<not> isGeoSuccess e"
    by simp
  note r = locate_error [OF refl, where lc = lowerLatin1 and msg = "str ''User denied Geolocation''"
      and s = "run lowerLatin1 [ClickLocate] (init sampleNum True [zoo])"
      and es = "[Elapse 7000, ClickLocate]", unfolded a v]
  from r e have "set (overlay (run lowerLatin1 [Elapse 7000, ClickLocate]
        (locateError (str ''User denied Geolocation'')
          (run lowerLatin1 [ClickLocate] (init sampleNum True [zoo]))))) \<subseteq> set []"
    by blast
  then have "overlay (run lowerLatin1 [Elapse 7000, ClickLocate]
        (locateError (str ''User denied Geolocation'')
          (run lowerLatin1 [ClickLocate] (init sampleNum True [zoo])))) = []"
    by simp
  with r show ?thesis
    by simp
qed

section \<open>Markup of the sidebar and of the popup\<close>

lemma sublist_adjacent: "sublist (a # b # q) s \<Longrightarrow> adjacent a b s"
  by (induction s) (auto simp: sublist_Cons_right prefix_def)

lemma adjacent_append:
  "adjacent a b (xs @ ys) \<longleftrightarrow>
     adjacent a b xs \<or> adjacent a b ys \<or> (xs \<noteq> [] \<and> last xs = a \<and> ys \<noteq> [] \<and> hd ys = b)"
  by (induction xs) (auto simp: hd_append)

lemma closedOff_append:
  "closedOff a b xs \<Longrightarrow> closedOff a b ys \<Longrightarrow> closedOff a b (xs @ ys)"
  by (cases "ys = []") (auto simp: closedOff_def adjacent_append)

lemma closedOff_Nil: "closedOff a b []"
  by (simp add: closedOff_def)

lemma closedOff_absent: "a \<notin> set xs \<Longrightarrow> closedOff a b xs"
  by (induction xs) (auto simp: closedOff_def)

lemma escapeUnit_no_ltSign: "ltSign \<notin> set (escapeUnit c)"
  by (simp add: escapeUnit_def ltSign_def str_def)

lemma escapeHtml_no_ltSign: "ltSign \<notin> set (escapeHtml s)"
  by (induction s) (simp_all add: escapeHtml_def escapeUnit_no_ltSign)

lemma includes_img_adjacent:
  "includes_str s (str ''<img'') \<Longrightarrow> adjacent ltSign (of_char (CHR ''i'')) s"
  by (rule sublist_adjacent [where q = "str ''mg''"])
     (simp add: includes_str_sublist str_def ltSign_def)

lemma closedOff_escapeHtml: "closedOff ltSign b (escapeHtml s)"
  by (rule closedOff_absent) (rule escapeHtml_no_ltSign)

lemma popup_without_image:
  assumes "\<not> truthy (image l)" and "ltSign \<notin> set (n (lat l))" and "ltSign \<notin> set (n (lng l))"
  shows "closedOff ltSign (of_char (CHR ''i'')) (createPopupHTML n l)"
proof -
  have la: "closedOff ltSign (of_char (CHR ''i'')) (n (lat l))"
    using assms(2) by (rule closedOff_absent)
  have lo: "closedOff ltSign (of_char (CHR ''i'')) (n (lng l))"
    using assms(3) by (rule closedOff_absent)
  show ?thesis
    unfolding createPopupHTML_def using assms(1)
    apply (simp only: if_False)
    apply (intro closedOff_append closedOff_Nil closedOff_escapeHtml la lo)
    apply (simp_all add: closedOff_def str_def nl_def ltSign_def)
    done
qed

lemma listItemHTML_split:
  \<open>listItemHTML l =
     (nl @ str ''        '') @
     (str ''<img class="location-thumb" src="'' @ toTemplate (image l) @ str ''" alt="'') @
     (escapeHtml (name l) @ str ''" />'' @
      nl @ str ''        <div>'' @
      nl @ str ''          <div class="location-title">'' @ escapeHtml (name l) @ str ''</div>'' @
      nl @ str ''          <div class="location-cat">'' @ escapeHtml (category l) @ str ''</div>'' @
      nl @ str ''        </div>'' @
      nl @ str ''      '')\<close>
  by (simp add: listItemHTML_def str_def)

lemma popup_with_image:
  \<open>truthy (image l) \<Longrightarrow>
   createPopupHTML n l =
     (nl @ str ''      <div class="popup">'' @
      nl @ str ''        <h3>'' @ escapeHtml (name l) @ str ''</h3>'' @
      nl @ str ''        <small>'' @ escapeHtml (category l) @ str ''</small>'' @
      nl @ str ''        <p>'' @ escapeHtml (description l) @ str ''</p>'' @
      nl @ str ''        '') @
     (str ''<img src="'' @ toTemplate (image l) @ str ''" alt="'' @
             escapeHtml (name l) @ str ''">'') @
     (nl @ str ''        <p><a href="https://www.google.com/maps/search/?api=1&query='' @
       n (lat l) @ str '','' @ n (lng l) @
       str ''" target="_blank" rel="noopener">Open in Google Maps</a></p>'' @
      nl @ str ''      </div>'' @
      nl @ str ''    '')\<close>
  by (simp add: createPopupHTML_def)

text \<open>
  C10. The sidebar entry of every record has the thumbnail element, its \<open>src\<close> being the
  image field as the template prints it (\<open>undefined\<close> for an absent field). The popup
  has its image element when the image field is truthy, and no \<open>img\<close> tag at all when
  it is not (numbers print without \<open><\<close>).
\<close>

theorem thumbnail_and_popup_image:
  \<open>includes_str (listItemHTML l)
      (str ''<img class="location-thumb" src="'' @ toTemplate (image l) @ str ''" alt="'')
   \<and> (image l = None \<longrightarrow>
        includes_str (listItemHTML l) (str ''<img class="location-thumb" src="undefined" alt="''))
   \<and> (truthy (image l) \<longrightarrow>
        includes_str (createPopupHTML n l)
          (str ''<img src="'' @ toTemplate (image l) @ str ''" alt="'' @
           escapeHtml (name l) @ str ''">''))
   \<and> (\<not> truthy (image l) \<and> ltSign \<notin> set (n (lat l)) \<and> ltSign \<notin> set (n (lng l)) \<longrightarrow>
        \<not> includes_str (createPopupHTML n l) (str ''<img''))\<close>
proof -
  have item: \<open>includes_str (listItemHTML l)
      (str ''<img class="location-thumb" src="'' @ toTemplate (image l) @ str ''" alt="'')\<close>
    unfolding includes_str_sublist listItemHTML_split by (rule sublist_appendI)
  have absent: \<open>image l = None \<longrightarrow>
        includes_str (listItemHTML l) (str ''<img class="location-thumb" src="undefined" alt="'')\<close>
  proof
    assume "image l = None"
    then have \<open>str ''<img class="location-thumb" src="'' @ toTemplate (image l) @ str ''" alt="''
         = str ''<img class="location-thumb" src="undefined" alt="''\<close>
      by (simp add: toTemplate_def str_def)
    with item show \<open>includes_str (listItemHTML l) (str ''<img class="location-thumb" src="undefined" alt="'')\<close>
      by simp
  qed
  have with_image: \<open>truthy (image l) \<longrightarrow>
        includes_str (createPopupHTML n l)
          (str ''<img src="'' @ toTemplate (image l) @ str ''" alt="'' @
           escapeHtml (name l) @ str ''">'')\<close>
  proof
    assume t: "truthy (image l)"
    show \<open>includes_str (createPopupHTML n l)
          (str ''<img src="'' @ toTemplate (image l) @ str ''" alt="'' @
           escapeHtml (name l) @ str ''">'')\<close>
      unfolding includes_str_sublist popup_with_image [OF t] by (rule sublist_appendI)
  qed
  have without: \<open>\<not> truthy (image l) \<and> ltSign \<notin> set (n (lat l)) \<and> ltSign \<notin> set (n (lng l)) \<longrightarrow>
        \<not> includes_str (createPopupHTML n l) (str ''<img'')\<close>
  proof (intro impI notI, elim conjE)
    assume "\<not> truthy (image l)" "ltSign \<notin> set (n (lat l))" "ltSign \<notin> set (n (lng l))"
    then have "closedOff ltSign (of_char (CHR ''i'')) (createPopupHTML n l)"
      by (rule popup_without_image)
    moreover assume "includes_str (createPopupHTML n l) (str ''<img'')"
    then have "adjacent ltSign (of_char (CHR ''i'')) (createPopupHTML n l)"
      by (rule includes_img_adjacent)
    ultimately show False by (simp add: closedOff_def)
  qed
  from item absent with_image without show ?thesis by blast
qed

theorem thumbnail_and_popup_image_witness:
  \<open>includes_str (listItemHTML zoo) (str ''<img class="location-thumb" src="undefined" alt="'')
   \<and> includes_str (createPopupHTML sampleNum cafe)
        (str ''<img src="img/cafe.jpg" alt="Cafe &lt;b&gt;">'')
   \<and> \<not> includes_str (createPopupHTML sampleNum zoo) (str ''<img'')\<close>
proof -
  have z: "image zoo = None" "\<not> truthy (image zoo)"
    by (simp_all add: zoo_def truthy_def)
  have c: "truthy (image cafe)"
    by (simp add: cafe_def truthy_def str_def)
  have n: "ltSign \<notin> set (sampleNum (lat zoo))" "ltSign \<notin> set (sampleNum (lng zoo))"
    by (simp_all add: sampleNum_def str_def ltSign_def)
  have m: \<open>str ''<img src="'' @ toTemplate (image cafe) @ str ''" alt="'' @
           escapeHtml (name cafe) @ str ''">''
        = str ''<img src="img/cafe.jpg" alt="Cafe &lt;b&gt;">''\<close>
    by (simp add: cafe_def toTemplate_def escapeHtml_def escapeUnit_def str_def)
  from thumbnail_and_popup_image [of zoo sampleNum] z n
  have \<open>includes_str (listItemHTML zoo) (str ''<img class="location-thumb" src="undefined" alt="'')\<close>
    and \<open>\<not> includes_str (createPopupHTML sampleNum zoo) (str ''<img'')\<close>
    by blast+
  moreover from thumbnail_and_popup_image [of cafe sampleNum] c
  have \<open>includes_str (createPopupHTML sampleNum cafe)
        (str ''<img src="img/cafe.jpg" alt="Cafe &lt;b&gt;">'')\<close>
    unfolding m by blast
  ultimately show ?thesis
    by blast
qed

text \<open>
  C2. Every user-supplied text field of a record, the image URL included, is to be escaped
  before it enters the markup. The script does so for name, category and description but
  not for the image URL: it goes into the \<open>src\<close> attribute of the popup and of the
  sidebar entry as it is, so a double quote in it ends the attribute, while the name
  \<open><script>x</script>\<close> of the same record is rendered escaped.
\<close>

theorem image_not_escaped:
  \<open>includes_str (createPopupHTML sampleNum evil) (str ''<img src="x" onerror="alert(1)" alt="'')
   \<and> includes_str (listItemHTML evil)
        (str ''<img class="location-thumb" src="x" onerror="alert(1)" alt="'')
   \<and> includes_str (createPopupHTML sampleNum evil) (str ''<h3>&lt;script&gt;x&lt;/script&gt;</h3>'')\<close>
  by code_simp

end
